theory Spec2Isabelle
  imports Main "HOL-Library.List_Lexorder" "HOL-Library.Multiset" "HOL-Library.Sublist"
    "HOL-Library.Word"
begin

section \<open>Python values\<close>

text \<open>
  A Python \<open>str\<close> is a sequence of Unicode code points, so a string is a list of code
  points and its length, its comparison and its prefixes are those of the list. The
  order of lists is the lexicographic one, which is how Python compares two strings.
\<close>

type_synonym pystr = "nat list"

text \<open>An ASCII literal of the source, as code points.\<close>

definition lit :: "string \<Rightarrow> pystr" where
  "lit s = map of_char s"

text \<open>
  The values a caller can pass where the source tests \<open>isinstance\<close>: \<open>None\<close>, an
  integer, a string, a tuple, a list.
\<close>

datatype pyval =
    PNone
  | PInt int
  | PStr pystr
  | PTuple "pyval list"
  | PList "pyval list"

text \<open>
  The exceptions of the source. \<open>UnicodeEncodeError\<close> is a subclass of \<open>ValueError\<close> and no
  \<open>OSError\<close>.
\<close>

datatype error = ValueError | RuntimeError | TypeError | UnicodeEncodeError

section \<open>String methods of the standard library\<close>

text \<open>
  The code points \<open>str.strip()\<close> removes: the ASCII white space (tab to carriage return,
  the four separators \<open>0x1C\<close> to \<open>0x1F\<close>, the space) and the Unicode white space.
\<close>

definition is_space :: "nat \<Rightarrow> bool" where
  "is_space c =
     ((9 \<le> c \<and> c \<le> 13) \<or> (28 \<le> c \<and> c \<le> 32) \<or> c = 0x85 \<or> c = 0xA0 \<or> c = 0x1680
      \<or> (0x2000 \<le> c \<and> c \<le> 0x200A) \<or> c = 0x2028 \<or> c = 0x2029 \<or> c = 0x202F
      \<or> c = 0x205F \<or> c = 0x3000)"

definition py_strip :: "pystr \<Rightarrow> pystr" where
  "py_strip s = rev (dropWhile is_space (rev (dropWhile is_space s)))"

definition startswith :: "pystr \<Rightarrow> pystr \<Rightarrow> bool" where
  "startswith s p = (take (length p) s = p)"

text \<open>
  \<open>str.lower()\<close>. The source only tests the lowered line against ASCII prefixes, and the
  model is exact for that: an ASCII capital lowers to its small letter, the Kelvin sign
  \<open>U+212A\<close> lowers to \<open>k\<close>, the dotted capital I \<open>U+0130\<close> lowers to \<open>i\<close> followed by
  \<open>U+0307\<close>, and these are the only code points whose lower case begins with an ASCII
  character. Every other code point stands for its own lower case, which is not ASCII.
\<close>

definition lower_cp :: "nat \<Rightarrow> pystr" where
  "lower_cp c =
     (if 65 \<le> c \<and> c \<le> 90 then [c + 32]
      else if c = 0x212A then [107]
      else if c = 0x130 then [105, 0x307]
      else [c])"

definition py_lower :: "pystr \<Rightarrow> pystr" where
  "py_lower s = concat (map lower_cp s)"

section \<open>The line classifier and the normaliser\<close>

text \<open>
  \<open>is_comment_or_empty(line)\<close> and \<open>normalize_rule_line(line)\<close> take a line that is a
  string or \<open>None\<close>: the value \<open>None\<close> of the option type is Python's \<open>None\<close>.
\<close>

definition is_comment_or_empty :: "pystr option \<Rightarrow> bool" where
  "is_comment_or_empty line =
     (case line of
        None \<Rightarrow> True
      | Some l \<Rightarrow>
          (let stripped = py_strip l in
           if stripped = [] then True
           else if startswith stripped (lit ''#'') \<or> startswith stripped (lit '';'')
                   \<or> startswith stripped (lit ''!'') then True
           else
             (let lower = py_lower stripped in
              if startswith lower (lit ''[adblock'') \<or> startswith lower (lit ''[version'')
                 \<or> startswith lower (lit ''[filter'') then True
              else False)))"

definition normalize_rule_line :: "pystr option \<Rightarrow> pystr" where
  "normalize_rule_line line = (case line of None \<Rightarrow> [] | Some l \<Rightarrow> py_strip l)"

section \<open>The merge and deduplicate engine\<close>

text \<open>
  The body of the inner loop of \<open>merge_and_deduplicate_rules\<close> leaves through one of
  four \<open>continue\<close> statements or reaches the two statements that record the rule.
\<close>

datatype branch = SkipNotStr | SkipComment | SkipEmptyRule | SkipSeen pystr | Record pystr

definition line_branch :: "pystr set \<Rightarrow> pyval \<Rightarrow> branch" where
  "line_branch unique_rules raw_line =
     (case raw_line of
        PStr s \<Rightarrow>
          if is_comment_or_empty (Some s) then SkipComment
          else
            (let rule = normalize_rule_line (Some s) in
             if rule = [] then SkipEmptyRule
             else if rule \<in> unique_rules then SkipSeen rule
             else Record rule)
      | _ \<Rightarrow> SkipNotStr)"

text \<open>The state of the loops: the set \<open>unique_rules\<close> and the list \<open>rules\<close>.\<close>

type_synonym merge_state = "pystr set \<times> pystr list"

fun merge_line :: "pyval \<Rightarrow> merge_state \<Rightarrow> merge_state" where
  "merge_line raw_line (unique_rules, rules) =
     (case line_branch unique_rules raw_line of
        Record rule \<Rightarrow> (insert rule unique_rules, rules @ [rule])
      | _ \<Rightarrow> (unique_rules, rules))"

definition merge_source :: "pyval \<Rightarrow> merge_state \<Rightarrow> merge_state" where
  "merge_source source_lines st =
     (case source_lines of PList ls \<Rightarrow> fold merge_line ls st | _ \<Rightarrow> st)"

definition merge_and_deduplicate_rules :: "pyval \<Rightarrow> error + pystr list" where
  "merge_and_deduplicate_rules multi_source_lines =
     (case multi_source_lines of
        PList srcs \<Rightarrow>
          if srcs = [] then Inl ValueError
          else Inr (sort (snd (fold merge_source srcs ({}, []))))
      | _ \<Rightarrow> Inl ValueError)"

text \<open>\<open>isinstance(v, list)\<close>.\<close>

definition isinstance_list :: "pyval \<Rightarrow> bool" where
  "isinstance_list v = (case v of PList _ \<Rightarrow> True | _ \<Rightarrow> False)"

subsection \<open>What the engine computes\<close>

text \<open>
  The rule a raw line contributes (none when the loop skips it), the rules of one source
  and the rules of all sources. They are used to state and prove the properties of the
  engine; the engine itself is \<open>merge_and_deduplicate_rules\<close> above.
\<close>

definition line_rules :: "pyval \<Rightarrow> pystr set" where
  "line_rules raw_line =
     (case raw_line of
        PStr s \<Rightarrow> if is_comment_or_empty (Some s) then {} else {py_strip s}
      | _ \<Rightarrow> {})"

definition source_rules :: "pyval \<Rightarrow> pystr set" where
  "source_rules source_lines =
     (case source_lines of PList ls \<Rightarrow> \<Union> (line_rules ` set ls) | _ \<Rightarrow> {})"

definition all_rules :: "pyval list \<Rightarrow> pystr set" where
  "all_rules srcs = \<Union> (source_rules ` set srcs)"

text \<open>
  Two entries of the outer list that a reordering of lines relates: two lists holding the
  same lines, each as often, or the same value when it is not a list.
\<close>

definition same_lines :: "pyval \<Rightarrow> pyval \<Rightarrow> bool" where
  "same_lines a b =
     (case (a, b) of (PList u, PList v) \<Rightarrow> mset u = mset v | _ \<Rightarrow> a = b)"

text \<open>
  The invariant of the two loops: \<open>unique_rules\<close> holds the elements of \<open>rules\<close>, and no
  rule occurs twice in \<open>rules\<close>.
\<close>

definition merge_inv :: "merge_state \<Rightarrow> bool" where
  "merge_inv st = (fst st = set (snd st) \<and> distinct (snd st))"

subsection \<open>The classifier as the specification words it\<close>

text \<open>
  A line is discarded when it is absent, when nothing is left of it after trimming, when
  the first character of the trimmed line is one of the comment markers, or when one of the
  metadata headers is a prefix of the lower-cased trimmed line.
\<close>

definition comment_markers :: "nat set" where
  "comment_markers = set (lit ''#;!'')"

definition metadata_headers :: "pystr list" where
  "metadata_headers = [lit ''[adblock'', lit ''[version'', lit ''[filter'']"

definition spec_discards :: "pystr option \<Rightarrow> bool" where
  "spec_discards line =
     (case line of
        None \<Rightarrow> True
      | Some l \<Rightarrow>
          (case py_strip l of
             [] \<Rightarrow> True
           | c # cs \<Rightarrow>
               c \<in> comment_markers
               \<or> list_ex (\<lambda>h. prefix h (py_lower (c # cs))) metadata_headers))"

section \<open>The decode step of the fetcher\<close>

text \<open>
  The part of \<open>fetch_lines_from_url\<close> between reading the response and splitting the text
  into lines: the body is \<open>None\<close> or a sequence of bytes, and \<open>bytes.decode\<close> returns the text
  or raises \<open>UnicodeDecodeError\<close>, which is the value \<open>None\<close> here.
\<close>

type_synonym byte = "8 word"

datatype encoding = UTF8 | UTF8_SIG | LATIN1

definition is_cont :: "byte \<Rightarrow> bool" where
  "is_cont b = (0x80 \<le> b \<and> b \<le> 0xBF)"

text \<open>The six bits a continuation byte carries.\<close>

definition cont :: "byte \<Rightarrow> nat" where
  "cont b = unat b - 0x80"

text \<open>
  The strict UTF-8 decoder: the shortest form only, no surrogate (\<open>0xED\<close> is followed by
  \<open>0x80\<close> to \<open>0x9F\<close>) and nothing above \<open>U+10FFFF\<close> (\<open>0xF4\<close> is followed by \<open>0x80\<close> to
  \<open>0x8F\<close>).
\<close>

fun utf8_decode :: "byte list \<Rightarrow> pystr option" where
  "utf8_decode [] = Some []"
| "utf8_decode (b # bs) =
     (if b < 0x80 then map_option ((#) (unat b)) (utf8_decode bs)
      else if 0xC2 \<le> b \<and> b \<le> 0xDF then
        (case bs of
           b1 # rest \<Rightarrow>
             if is_cont b1
             then map_option ((#) ((unat b - 0xC0) * 64 + cont b1)) (utf8_decode rest)
             else None
         | _ \<Rightarrow> None)
      else if 0xE0 \<le> b \<and> b \<le> 0xEF then
        (case bs of
           b1 # b2 # rest \<Rightarrow>
             if (if b = 0xE0 then 0xA0 else 0x80) \<le> b1
                \<and> b1 \<le> (if b = 0xED then 0x9F else 0xBF) \<and> is_cont b2
             then map_option ((#) ((unat b - 0xE0) * 4096 + cont b1 * 64 + cont b2))
                    (utf8_decode rest)
             else None
         | _ \<Rightarrow> None)
      else if 0xF0 \<le> b \<and> b \<le> 0xF4 then
        (case bs of
           b1 # b2 # b3 # rest \<Rightarrow>
             if (if b = 0xF0 then 0x90 else 0x80) \<le> b1
                \<and> b1 \<le> (if b = 0xF4 then 0x8F else 0xBF) \<and> is_cont b2 \<and> is_cont b3
             then map_option
                    ((#) ((unat b - 0xF0) * 262144 + cont b1 * 4096 + cont b2 * 64 + cont b3))
                    (utf8_decode rest)
             else None
         | _ \<Rightarrow> None)
      else None)"

text \<open>\<open>utf-8-sig\<close> drops a leading byte order mark and decodes the rest as UTF-8.\<close>

definition utf8_sig_decode :: "byte list \<Rightarrow> pystr option" where
  "utf8_sig_decode bs =
     (if take 3 bs = [0xEF, 0xBB, 0xBF] then utf8_decode (drop 3 bs) else utf8_decode bs)"

text \<open>\<open>latin-1\<close> maps every byte to the code point of the same number.\<close>

definition latin1_decode :: "byte list \<Rightarrow> pystr option" where
  "latin1_decode bs = Some (map unat bs)"

fun py_decode :: "encoding \<Rightarrow> byte list \<Rightarrow> pystr option" where
  "py_decode UTF8 bs = utf8_decode bs"
| "py_decode UTF8_SIG bs = utf8_sig_decode bs"
| "py_decode LATIN1 bs = latin1_decode bs"

text \<open>
  The \<open>for\<close> loop over the encodings, with the variable \<open>text\<close>: a decoding that gives a
  non-empty text ends the loop, an empty one is kept and the loop goes on, and a
  \<open>UnicodeDecodeError\<close> resets \<open>text\<close> to the empty string.
\<close>

fun decode_loop :: "encoding list \<Rightarrow> byte list \<Rightarrow> pystr \<Rightarrow> pystr" where
  "decode_loop [] raw_data text = text"
| "decode_loop (encoding # rest) raw_data text =
     (case py_decode encoding raw_data of
        Some t \<Rightarrow> if t \<noteq> [] then t else decode_loop rest raw_data t
      | None \<Rightarrow> decode_loop rest raw_data [])"

definition encodings :: "encoding list" where
  "encodings = [UTF8, UTF8_SIG, LATIN1]"

definition decode_response :: "byte list option \<Rightarrow> error + pystr" where
  "decode_response raw_data =
     (case raw_data of
        None \<Rightarrow> Inl RuntimeError
      | Some raw \<Rightarrow>
          (let text = decode_loop encodings raw [] in
           if text = [] then Inl RuntimeError else Inr text))"

subsection \<open>The decode step as the specification words it\<close>

text \<open>An encoding yields a text when it decodes the bytes and the text is not empty.\<close>

definition yields_text :: "encoding \<Rightarrow> byte list \<Rightarrow> bool" where
  "yields_text e raw = (case py_decode e raw of Some t \<Rightarrow> t \<noteq> [] | None \<Rightarrow> False)"

text \<open>The text of the first encoding that yields one, a failure when none does.\<close>

definition spec_decode :: "byte list \<Rightarrow> error + pystr" where
  "spec_decode raw =
     (case find (\<lambda>e. yields_text e raw) [UTF8, UTF8_SIG, LATIN1] of
        None \<Rightarrow> Inl RuntimeError
      | Some e \<Rightarrow> (case py_decode e raw of Some t \<Rightarrow> Inr t | None \<Rightarrow> Inl RuntimeError))"

section \<open>The output writer\<close>





















subsection \<open>The file as the specification words it\<close>




section \<open>Properties of trimming and of the classifier\<close>

lemma dropWhile_id_iff: "(dropWhile P xs = xs) = (xs = [] \<or> \<not> P (hd xs))"
proof (cases xs)
  case Nil then show ?thesis by simp
next
  case (Cons a list)
  have "length (dropWhile P list) \<le> length list" by (rule length_dropWhile_le)
  then have "dropWhile P list \<noteq> a # list" by auto
  with Cons show ?thesis by auto
qed

lemma rstrip_prefix: "rev (dropWhile P (rev t)) @ rev (takeWhile P (rev t)) = t"
proof -
  have "rev (takeWhile P (rev t) @ dropWhile P (rev t)) = t" by simp
  then show ?thesis by (simp only: rev_append)
qed

lemma strip_hd: "py_strip s \<noteq> [] \<Longrightarrow> \<not> is_space (hd (py_strip s))"
proof -
  assume ne: "py_strip s \<noteq> []"
  let ?t = "dropWhile is_space s"
  have pre: "py_strip s @ rev (takeWhile is_space (rev ?t)) = ?t"
    unfolding py_strip_def by (rule rstrip_prefix)
  with ne have "hd (py_strip s) = hd ?t" by (metis hd_append2)
  moreover from pre ne have "?t \<noteq> []" by (metis Nil_is_append_conv)
  then have "\<not> is_space (hd ?t)" by (rule hd_dropWhile)
  ultimately show ?thesis by simp
qed

lemma strip_last: "py_strip s \<noteq> [] \<Longrightarrow> \<not> is_space (last (py_strip s))"
proof -
  assume ne: "py_strip s \<noteq> []"
  let ?d = "dropWhile is_space (rev (dropWhile is_space s))"
  from ne have "?d \<noteq> []" by (simp add: py_strip_def)
  then have "\<not> is_space (hd ?d)" by (rule hd_dropWhile)
  moreover have "last (py_strip s) = hd ?d" using \<open>?d \<noteq> []\<close> by (simp add: py_strip_def last_rev)
  ultimately show ?thesis by simp
qed

lemma strip_fix: "s = [] \<or> (\<not> is_space (hd s) \<and> \<not> is_space (last s)) \<Longrightarrow> py_strip s = s"
proof (cases "s = []")
  case True then show ?thesis by (simp add: py_strip_def)
next
  case False
  assume "s = [] \<or> (\<not> is_space (hd s) \<and> \<not> is_space (last s))"
  with False have h: "\<not> is_space (hd s)" and l: "\<not> is_space (last s)" by auto
  from h have d1: "dropWhile is_space s = s" by (simp add: dropWhile_id_iff)
  from l False have "\<not> is_space (hd (rev s))" by (simp add: hd_rev)
  then have d2: "dropWhile is_space (rev s) = rev s" by (simp add: dropWhile_id_iff)
  show ?thesis by (simp add: py_strip_def d1 d2)
qed

lemma py_strip_idem: "py_strip (py_strip s) = py_strip s"
  by (rule strip_fix) (use strip_hd strip_last in blast)

lemma classify_strip: "is_comment_or_empty (Some (py_strip s)) = is_comment_or_empty (Some s)"
  by (simp add: is_comment_or_empty_def py_strip_idem)

lemma retained_nonempty: "\<not> is_comment_or_empty (Some s) \<Longrightarrow> py_strip s \<noteq> []"
  by (auto simp: is_comment_or_empty_def Let_def split: if_splits)

lemma merge_line_inv:
  assumes "merge_inv st"
  shows "merge_inv (merge_line raw st) \<and> set (snd (merge_line raw st)) = set (snd st) \<union> line_rules raw"
proof (cases st)
  case (Pair u r)
  with assms have u: "u = set r" and d: "distinct r" by (simp_all add: merge_inv_def)
  show ?thesis
    by (cases raw) (auto simp: Pair u d merge_inv_def line_branch_def line_rules_def normalize_rule_line_def Let_def dest: retained_nonempty)
qed

lemma fold_merge_line_inv:
  "merge_inv st \<Longrightarrow>
     merge_inv (fold merge_line ls st) \<and>
     set (snd (fold merge_line ls st)) = set (snd st) \<union> \<Union> (line_rules ` set ls)"
proof (induction ls arbitrary: st)
  case Nil then show ?case by simp
next
  case (Cons l ls)
  from merge_line_inv[OF Cons.prems, of l]
  have i: "merge_inv (merge_line l st)"
    and s: "set (snd (merge_line l st)) = set (snd st) \<union> line_rules l" by simp_all
  from Cons.IH[OF i] s show ?case by auto
qed

lemma merge_source_inv:
  "merge_inv st \<Longrightarrow>
     merge_inv (merge_source src st) \<and>
     set (snd (merge_source src st)) = set (snd st) \<union> source_rules src"
  by (cases src) (simp_all add: merge_source_def source_rules_def fold_merge_line_inv)

lemma fold_merge_source_inv:
  "merge_inv st \<Longrightarrow>
     merge_inv (fold merge_source srcs st) \<and>
     set (snd (fold merge_source srcs st)) = set (snd st) \<union> all_rules srcs"
proof (induction srcs arbitrary: st)
  case Nil then show ?case by (simp add: all_rules_def)
next
  case (Cons a srcs)
  from merge_source_inv[OF Cons.prems, of a]
  have i: "merge_inv (merge_source a st)"
    and s: "set (snd (merge_source a st)) = set (snd st) \<union> source_rules a" by simp_all
  from Cons.IH[OF i] s show ?case by (auto simp: all_rules_def)
qed

lemma merge_loops:
  "distinct (snd (fold merge_source srcs ({}, []))) \<and>
   set (snd (fold merge_source srcs ({}, []))) = all_rules srcs"
proof -
  have "merge_inv ({}, [])" by (simp add: merge_inv_def)
  from fold_merge_source_inv[OF this, of srcs] show ?thesis by (simp add: merge_inv_def)
qed

lemma merge_loops_sorted:
  "sort (snd (fold merge_source srcs ({}, []))) = sorted_list_of_set (all_rules srcs)"
proof -
  let ?r = "snd (fold merge_source srcs ({}, []))"
  from merge_loops[of srcs] have d: "distinct ?r" and s: "set ?r = all_rules srcs" by simp_all
  have "sorted_list_of_set (set ?r) = sort (remdups ?r)" by (rule sorted_list_of_set_sort_remdups)
  with d show ?thesis by (simp add: s distinct_remdups_id)
qed

lemma merge_result:
  "srcs \<noteq> [] \<Longrightarrow>
     merge_and_deduplicate_rules (PList srcs) = Inr (sorted_list_of_set (all_rules srcs))"
  by (simp add: merge_and_deduplicate_rules_def merge_loops_sorted)

lemma finite_all_rules: "finite (all_rules srcs)"
  using merge_loops[of srcs] by (metis List.finite_set)

lemma startswith_prefix: "startswith s p = prefix p s"
  by (auto simp: startswith_def prefix_def) (metis append_take_drop_id)

section \<open>Properties of the engine\<close>

lemma source_rules_same: "same_lines a b \<Longrightarrow> source_rules a = source_rules b"
  by (cases a; cases b) (auto simp: same_lines_def source_rules_def dest: mset_eq_setD)

lemma all_rules_same: "list_all2 same_lines xs ys \<Longrightarrow> all_rules xs = all_rules ys"
  by (induction rule: list_all2_induct) (simp_all add: all_rules_def source_rules_same)

lemma all_rules_mset: "mset xs = mset ys \<Longrightarrow> all_rules xs = all_rules ys"
proof -
  assume "mset xs = mset ys"
  then have "set xs = set ys" by (rule mset_eq_setD)
  then show ?thesis by (simp add: all_rules_def)
qed

lemma line_rules_mem:
  "r \<in> line_rules raw \<Longrightarrow>
     \<exists>l. raw = PStr l \<and> \<not> is_comment_or_empty (Some l) \<and> r = py_strip l"
  by (cases raw) (simp_all add: line_rules_def split: if_splits)

lemma source_rules_mem:
  "r \<in> source_rules src \<Longrightarrow>
     \<exists>ls l. src = PList ls \<and> PStr l \<in> set ls \<and> \<not> is_comment_or_empty (Some l)
        \<and> r = py_strip l"
proof (cases src)
  case (PList ls)
  assume "r \<in> source_rules src"
  with PList obtain raw where "raw \<in> set ls" "r \<in> line_rules raw"
    by (auto simp: source_rules_def)
  with line_rules_mem[of r raw] PList show ?thesis by blast
qed (simp_all add: source_rules_def)

lemma all_rules_mem:
  "r \<in> all_rules srcs \<Longrightarrow>
     \<exists>ls l. PList ls \<in> set srcs \<and> PStr l \<in> set ls \<and> \<not> is_comment_or_empty (Some l)
        \<and> r = py_strip l"
proof -
  assume "r \<in> all_rules srcs"
  then obtain src where "src \<in> set srcs" "r \<in> source_rules src"
    by (auto simp: all_rules_def)
  with source_rules_mem[of r src] show ?thesis by blast
qed

lemma all_rules_strs:
  assumes "\<And>r. r \<in> set ys \<Longrightarrow> \<not> is_comment_or_empty (Some r) \<and> py_strip r = r"
  shows "all_rules [PList (map PStr ys)] = set ys"
proof -
  have "line_rules (PStr r) = {r}" if "r \<in> set ys" for r
    using assms[OF that] by (simp add: line_rules_def)
  then have "\<Union> (line_rules ` PStr ` set ys) = set ys" by auto
  then show ?thesis by (simp add: all_rules_def source_rules_def)
qed

lemma non_list_no_rules: "\<not> isinstance_list a \<Longrightarrow> source_rules a = {}"
  by (cases a) (simp_all add: source_rules_def isinstance_list_def)

text \<open>The facts that evaluate the engine on a concrete input.\<close>

lemmas engine_eval =
  merge_and_deduplicate_rules_def merge_source_def line_branch_def is_comment_or_empty_def
  normalize_rule_line_def py_strip_def is_space_def startswith_def lit_def py_lower_def
  lower_cp_def

section \<open>Properties of the decode step\<close>

lemma decode_loop_find:
  "decode_loop es raw [] =
     (case find (\<lambda>e. yields_text e raw) es of
        Some e \<Rightarrow> the (py_decode e raw)
      | None \<Rightarrow> [])"
  by (induction es) (auto simp: yields_text_def split: option.splits)

lemma decode_response_find:
  "decode_response (Some raw) =
     (case find (\<lambda>e. yields_text e raw) encodings of
        None \<Rightarrow> Inl RuntimeError
      | Some e \<Rightarrow> (case py_decode e raw of Some t \<Rightarrow> Inr t | None \<Rightarrow> Inl RuntimeError))"
proof (cases "find (\<lambda>e. yields_text e raw) encodings")
  case None
  then show ?thesis by (simp add: decode_response_def decode_loop_find)
next
  case (Some e)
  then have "yields_text e raw" by (auto simp: find_Some_iff)
  then obtain t where "py_decode e raw = Some t" "t \<noteq> []"
    by (auto simp: yields_text_def split: option.splits)
  with Some show ?thesis by (simp add: decode_response_def decode_loop_find)
qed

lemma latin1_yields: "raw \<noteq> [] \<Longrightarrow> yields_text LATIN1 raw"
  by (simp add: yields_text_def latin1_decode_def)

section \<open>Properties of the output writer\<close>


















section \<open>The claims\<close>

text \<open>
  C1. For every non-empty list of sources, \<open>merge_and_deduplicate_rules\<close> returns a list
  that is sorted in ascending order (every adjacent pair \<open>(a, b)\<close> has \<open>a \<le> b\<close>), holds no
  element twice (the number of distinct values is the length), and holds only rules that
  are non-empty, are no comment, and are the trimmed form of a line of some source that
  the classifier retains: the line without its leading and trailing white space, so that
  a rule neither begins nor ends with white space.
\<close>

theorem merge_output_sorted_unique:
  assumes "srcs \<noteq> []"
  shows "\<exists>rs. merge_and_deduplicate_rules (PList srcs) = Inr rs
           \<and> sorted rs \<and> (\<forall>i. Suc i < length rs \<longrightarrow> rs ! i \<le> rs ! Suc i)
           \<and> distinct rs \<and> card (set rs) = length rs
           \<and> (\<forall>r \<in> set rs. r \<noteq> [] \<and> \<not> is_comment_or_empty (Some r)
                \<and> \<not> is_space (hd r) \<and> \<not> is_space (last r)
                \<and> (\<exists>ls l. PList ls \<in> set srcs \<and> PStr l \<in> set ls
                      \<and> \<not> is_comment_or_empty (Some l)
                      \<and> r = py_strip l
                      \<and> r = normalize_rule_line (Some l)))"
proof -
  let ?rs = "sorted_list_of_set (all_rules srcs)"
  have fin: "finite (all_rules srcs)" by (rule finite_all_rules)
  have res: "merge_and_deduplicate_rules (PList srcs) = Inr ?rs"
    using assms by (rule merge_result)
  have so: "sorted ?rs" by simp
  then have adj: "\<forall>i. Suc i < length ?rs \<longrightarrow> ?rs ! i \<le> ?rs ! Suc i"
    by (simp add: sorted_iff_nth_Suc)
  have di: "distinct ?rs" by simp
  then have ca: "card (set ?rs) = length ?rs" by (rule distinct_card)
  have el: "\<forall>r \<in> set ?rs. r \<noteq> [] \<and> \<not> is_comment_or_empty (Some r)
                \<and> \<not> is_space (hd r) \<and> \<not> is_space (last r)
                \<and> (\<exists>ls l. PList ls \<in> set srcs \<and> PStr l \<in> set ls
                      \<and> \<not> is_comment_or_empty (Some l)
                      \<and> r = py_strip l
                      \<and> r = normalize_rule_line (Some l))"
  proof
    fix r assume "r \<in> set ?rs"
    with fin have "r \<in> all_rules srcs" by simp
    from all_rules_mem[OF this] obtain ls l where
      h: "PList ls \<in> set srcs" "PStr l \<in> set ls" "\<not> is_comment_or_empty (Some l)"
         "r = py_strip l"
      by blast
    from h(3) have ne: "py_strip l \<noteq> []" by (rule retained_nonempty)
    from h(3) have nc: "\<not> is_comment_or_empty (Some (py_strip l))"
      by (simp add: classify_strip)
    from ne have e1: "\<not> is_space (hd (py_strip l))" by (rule strip_hd)
    from ne have e2: "\<not> is_space (last (py_strip l))" by (rule strip_last)
    have n: "py_strip l = normalize_rule_line (Some l)" by (simp add: normalize_rule_line_def)
    from h(4) ne nc e1 e2
    have a: "r \<noteq> [] \<and> \<not> is_comment_or_empty (Some r)
                \<and> \<not> is_space (hd r) \<and> \<not> is_space (last r)"
      by simp
    have "PList ls \<in> set srcs \<and> PStr l \<in> set ls \<and> \<not> is_comment_or_empty (Some l)
            \<and> r = py_strip l \<and> r = normalize_rule_line (Some l)"
      using h n by simp
    then have b: "\<exists>ls l. PList ls \<in> set srcs \<and> PStr l \<in> set ls
                      \<and> \<not> is_comment_or_empty (Some l)
                      \<and> r = py_strip l
                      \<and> r = normalize_rule_line (Some l)"
      by blast
    from a b
    show "r \<noteq> [] \<and> \<not> is_comment_or_empty (Some r)
                \<and> \<not> is_space (hd r) \<and> \<not> is_space (last r)
                \<and> (\<exists>ls l. PList ls \<in> set srcs \<and> PStr l \<in> set ls
                      \<and> \<not> is_comment_or_empty (Some l)
                      \<and> r = py_strip l
                      \<and> r = normalize_rule_line (Some l))"
      by simp
  qed
  from res so adj di ca el show ?thesis by blast
qed

theorem merge_output_sorted_unique_witness:
  "[PList [PStr (lit ''  b''), PStr (lit ''! x'')], PList [PStr (lit ''a ''), PStr (lit ''b'')]]
     \<noteq> []
   \<and> merge_and_deduplicate_rules
        (PList [PList [PStr (lit ''  b''), PStr (lit ''! x'')],
                PList [PStr (lit ''a ''), PStr (lit ''b'')]])
     = Inr [[97], [98]]
   \<and> py_strip (lit ''a '') = [97] \<and> py_strip (lit ''  b'') = [98]
   \<and> (\<exists>rs. merge_and_deduplicate_rules
              (PList [PList [PStr (lit ''  b''), PStr (lit ''! x'')],
                      PList [PStr (lit ''a ''), PStr (lit ''b'')]]) = Inr rs
           \<and> sorted rs \<and> (\<forall>i. Suc i < length rs \<longrightarrow> rs ! i \<le> rs ! Suc i)
           \<and> distinct rs \<and> card (set rs) = length rs
           \<and> (\<forall>r \<in> set rs. r \<noteq> [] \<and> \<not> is_comment_or_empty (Some r)
                \<and> \<not> is_space (hd r) \<and> \<not> is_space (last r)
                \<and> (\<exists>ls l. PList ls
                             \<in> set [PList [PStr (lit ''  b''), PStr (lit ''! x'')],
                                    PList [PStr (lit ''a ''), PStr (lit ''b'')]]
                      \<and> PStr l \<in> set ls
                      \<and> \<not> is_comment_or_empty (Some l)
                      \<and> r = py_strip l
                      \<and> r = normalize_rule_line (Some l))))"
proof -
  have h: "[PList [PStr (lit ''  b''), PStr (lit ''! x'')],
            PList [PStr (lit ''a ''), PStr (lit ''b'')]] \<noteq> []"
    by simp
  have v: "merge_and_deduplicate_rules
        (PList [PList [PStr (lit ''  b''), PStr (lit ''! x'')],
                PList [PStr (lit ''a ''), PStr (lit ''b'')]])
     = Inr [[97], [98]]"
    by (simp add: engine_eval)
  have s: "py_strip (lit ''a '') = [97]" "py_strip (lit ''  b'') = [98]"
    by (simp_all add: py_strip_def is_space_def lit_def)
  from h v s merge_output_sorted_unique[OF h] show ?thesis by (intro conjI)
qed

text \<open>
  C2. \<open>merge_and_deduplicate_rules\<close> raises \<open>ValueError\<close> exactly when its argument is
  not a list or is the empty list: it raises nothing else, the empty list makes it fail,
  and every non-empty list returns normally.
\<close>

theorem merge_raises_iff_invalid:
  "(merge_and_deduplicate_rules x = Inl ValueError) = (\<not> isinstance_list x \<or> x = PList [])
   \<and> (\<forall>e. merge_and_deduplicate_rules x = Inl e \<longrightarrow> e = ValueError)
   \<and> merge_and_deduplicate_rules (PList []) = Inl ValueError
   \<and> (isinstance_list x \<and> x \<noteq> PList [] \<longrightarrow>
        (\<exists>rs. merge_and_deduplicate_rules x = Inr rs))"
  by (cases x) (auto simp: merge_and_deduplicate_rules_def isinstance_list_def)

theorem merge_raises_iff_invalid_witness:
  "merge_and_deduplicate_rules PNone = Inl ValueError
   \<and> merge_and_deduplicate_rules (PTuple [PList [PStr (lit ''a'')]]) = Inl ValueError
   \<and> (\<exists>rs. merge_and_deduplicate_rules (PList [PList [PStr (lit ''a'')]]) = Inr rs)"
  using merge_raises_iff_invalid[of PNone]
    merge_raises_iff_invalid[of "PTuple [PList [PStr (lit ''a'')]]"]
    merge_raises_iff_invalid[of "PList [PList [PStr (lit ''a'')]]"]
  by (simp add: isinstance_list_def)

text \<open>
  C3. \<open>merge_and_deduplicate_rules\<close> is idempotent: when it returns \<open>ys\<close> on an input,
  merging the single source \<open>ys\<close> returns \<open>ys\<close> again.
\<close>

theorem merge_idempotent:
  assumes "merge_and_deduplicate_rules x = Inr ys"
  shows "merge_and_deduplicate_rules (PList [PList (map PStr ys)]) = Inr ys"
proof -
  from assms obtain srcs where x: "x = PList srcs" and ne: "srcs \<noteq> []"
    by (cases x) (auto simp: merge_and_deduplicate_rules_def split: if_splits)
  from merge_result[OF ne] assms x have ys: "ys = sorted_list_of_set (all_rules srcs)"
    by simp
  have fin: "finite (all_rules srcs)" by (rule finite_all_rules)
  have "\<And>r. r \<in> set ys \<Longrightarrow> \<not> is_comment_or_empty (Some r) \<and> py_strip r = r"
  proof -
    fix r assume "r \<in> set ys"
    with ys fin have "r \<in> all_rules srcs" by simp
    from all_rules_mem[OF this] obtain l where
      "\<not> is_comment_or_empty (Some l)" "r = py_strip l"
      by blast
    then show "\<not> is_comment_or_empty (Some r) \<and> py_strip r = r"
      by (simp add: classify_strip py_strip_idem)
  qed
  then have "all_rules [PList (map PStr ys)] = set ys" by (rule all_rules_strs)
  moreover have "sorted_list_of_set (set ys) = ys" using ys by (simp add: fin)
  moreover have "merge_and_deduplicate_rules (PList [PList (map PStr ys)])
      = Inr (sorted_list_of_set (all_rules [PList (map PStr ys)]))"
    by (rule merge_result) simp
  ultimately show ?thesis by simp
qed

theorem merge_idempotent_witness:
  "merge_and_deduplicate_rules
     (PList [PList [PStr (lit '' b ''), PStr (lit ''# c'')], PList [PStr (lit ''a''), PStr (lit ''b'')]])
     = Inr [lit ''a'', lit ''b'']
   \<and> merge_and_deduplicate_rules (PList [PList (map PStr [lit ''a'', lit ''b''])])
     = Inr [lit ''a'', lit ''b'']"
proof -
  have h: "merge_and_deduplicate_rules
     (PList [PList [PStr (lit '' b ''), PStr (lit ''# c'')], PList [PStr (lit ''a''), PStr (lit ''b'')]])
     = Inr [lit ''a'', lit ''b'']"
    by (simp add: engine_eval)
  from h merge_idempotent[OF h] show ?thesis by (rule conjI)
qed

text \<open>
  C4. The output of \<open>merge_and_deduplicate_rules\<close> does not depend on the order of the
  sources nor on the order of the lines in a source: reordering the outer list and then
  reordering the lines inside each source gives the same result.
\<close>

theorem merge_order_independent:
  assumes "mset srcs' = mset srcs" and "list_all2 same_lines srcs' srcs''"
  shows "merge_and_deduplicate_rules (PList srcs'') = merge_and_deduplicate_rules (PList srcs)"
proof (cases "srcs = []")
  case True
  with assms(1) have "srcs' = []" by simp
  with assms(2) have "srcs'' = []" by simp
  with True show ?thesis by simp
next
  case False
  with assms(1) have n1: "srcs' \<noteq> []" by (metis mset_zero_iff)
  with assms(2) have n2: "srcs'' \<noteq> []" by (metis list_all2_Nil2)
  have "all_rules srcs'' = all_rules srcs"
    using all_rules_same[OF assms(2)] all_rules_mset[OF assms(1)] by simp
  with merge_result[OF False] merge_result[OF n2] show ?thesis by simp
qed

theorem merge_order_independent_witness:
  "mset [PList [PStr (lit ''a'')], PList [PStr (lit ''c''), PStr (lit ''b'')]]
     = mset [PList [PStr (lit ''c''), PStr (lit ''b'')], PList [PStr (lit ''a'')]]
   \<and> list_all2 same_lines
        [PList [PStr (lit ''a'')], PList [PStr (lit ''c''), PStr (lit ''b'')]]
        [PList [PStr (lit ''a'')], PList [PStr (lit ''b''), PStr (lit ''c'')]]
   \<and> merge_and_deduplicate_rules
        (PList [PList [PStr (lit ''a'')], PList [PStr (lit ''b''), PStr (lit ''c'')]])
     = merge_and_deduplicate_rules
        (PList [PList [PStr (lit ''c''), PStr (lit ''b'')], PList [PStr (lit ''a'')]])"
proof -
  have h1: "mset [PList [PStr (lit ''a'')], PList [PStr (lit ''c''), PStr (lit ''b'')]]
     = mset [PList [PStr (lit ''c''), PStr (lit ''b'')], PList [PStr (lit ''a'')]]"
    by (simp add: add.commute)
  have h2: "list_all2 same_lines
        [PList [PStr (lit ''a'')], PList [PStr (lit ''c''), PStr (lit ''b'')]]
        [PList [PStr (lit ''a'')], PList [PStr (lit ''b''), PStr (lit ''c'')]]"
    by (simp add: same_lines_def add.commute)
  from h1 h2 merge_order_independent[OF h1 h2] show ?thesis by (intro conjI)
qed

text \<open>
  C5. \<open>is_comment_or_empty\<close> discards exactly the lines the specification lists: an
  absent line, a line of which nothing is left after trimming, a trimmed line that begins
  with \<open>#\<close>, \<open>;\<close> or \<open>!\<close>, and a trimmed line whose lower case begins with \<open>[adblock\<close>,
  \<open>[version\<close> or \<open>[filter\<close>. Every other line is retained. The result is a function of
  the line alone.
\<close>

theorem classifier_discards_exactly: "is_comment_or_empty line = spec_discards line"
proof (cases line)
  case None
  then show ?thesis by (simp add: is_comment_or_empty_def spec_discards_def)
next
  case (Some l)
  show ?thesis
  proof (cases "py_strip l")
    case Nil
    with Some show ?thesis by (simp add: is_comment_or_empty_def spec_discards_def)
  next
    case (Cons c cs)
    have m: "(startswith (c # cs) (lit ''#'') \<or> startswith (c # cs) (lit '';'')
              \<or> startswith (c # cs) (lit ''!''))
        = (c \<in> comment_markers)"
      by (auto simp: startswith_def lit_def comment_markers_def)
    have h: "(startswith (py_lower (c # cs)) (lit ''[adblock'')
              \<or> startswith (py_lower (c # cs)) (lit ''[version'')
              \<or> startswith (py_lower (c # cs)) (lit ''[filter''))
        = list_ex (\<lambda>h. prefix h (py_lower (c # cs))) metadata_headers"
      by (simp add: startswith_prefix metadata_headers_def)
    have "is_comment_or_empty (Some l) = (c \<in> comment_markers
         \<or> list_ex (\<lambda>h. prefix h (py_lower (c # cs))) metadata_headers)"
      unfolding h[symmetric] m[symmetric] by (simp add: is_comment_or_empty_def Cons Let_def)
    then show ?thesis by (simp add: Some Cons spec_discards_def)
  qed
qed

theorem classifier_discards_exactly_witness:
  "spec_discards (Some (lit '' [AdBlock Plus 2.0]''))
   \<and> is_comment_or_empty (Some (lit '' [AdBlock Plus 2.0]''))
   \<and> \<not> spec_discards (Some (lit ''||ads.example^''))
   \<and> \<not> is_comment_or_empty (Some (lit ''||ads.example^''))"
proof -
  have h1: "is_comment_or_empty (Some (lit '' [AdBlock Plus 2.0]''))"
    by (simp add: engine_eval)
  have h2: "\<not> is_comment_or_empty (Some (lit ''||ads.example^''))"
    by (simp add: engine_eval)
  from h1 h2 classifier_discards_exactly[of "Some (lit '' [AdBlock Plus 2.0]'')"]
    classifier_discards_exactly[of "Some (lit ''||ads.example^'')"]
  show ?thesis by blast
qed

text \<open>
  C6. On the sources \<open>[["# comment", "ruleA", "", "ruleB"], ["ruleA", "; note", "ruleC"]]\<close>
  the engine returns \<open>["ruleA", "ruleB", "ruleC"]\<close>.
\<close>

theorem merge_concrete_scenario:
  "merge_and_deduplicate_rules
     (PList [PList [PStr (lit ''# comment''), PStr (lit ''ruleA''), PStr (lit ''''),
                    PStr (lit ''ruleB'')],
             PList [PStr (lit ''ruleA''), PStr (lit ''; note''), PStr (lit ''ruleC'')]])
   = Inr [lit ''ruleA'', lit ''ruleB'', lit ''ruleC'']"
  by (simp add: engine_eval)

text \<open>
  C7. The decode step tries UTF-8, then UTF-8 with a byte order mark, then latin-1, and
  returns the text of the first encoding that decodes the body to a non-empty string; it
  fails with \<open>RuntimeError\<close> when no encoding does, and so on the empty body. A body
  that is not empty always decodes.
\<close>

theorem decode_first_nonempty:
  "decode_response (Some raw) = spec_decode raw
   \<and> ((\<forall>e \<in> set encodings. \<not> yields_text e raw) \<longrightarrow>
        decode_response (Some raw) = Inl RuntimeError)
   \<and> (raw \<noteq> [] \<longrightarrow> (\<exists>t. decode_response (Some raw) = Inr t \<and> t \<noteq> []))
   \<and> decode_response (Some []) = Inl RuntimeError
   \<and> decode_response None = Inl RuntimeError"
proof -
  have a: "decode_response (Some raw) = spec_decode raw"
    by (simp add: decode_response_find spec_decode_def encodings_def)
  have b: "(\<forall>e \<in> set encodings. \<not> yields_text e raw) \<longrightarrow>
        decode_response (Some raw) = Inl RuntimeError"
  proof
    assume "\<forall>e \<in> set encodings. \<not> yields_text e raw"
    then have "find (\<lambda>e. yields_text e raw) encodings = None" by (simp add: find_None_iff)
    then show "decode_response (Some raw) = Inl RuntimeError"
      by (simp add: decode_response_find)
  qed
  have c: "raw \<noteq> [] \<longrightarrow> (\<exists>t. decode_response (Some raw) = Inr t \<and> t \<noteq> [])"
  proof
    assume "raw \<noteq> []"
    then have "yields_text LATIN1 raw" by (rule latin1_yields)
    moreover have "LATIN1 \<in> set encodings" by (simp add: encodings_def)
    ultimately have "\<not> (find (\<lambda>e. yields_text e raw) encodings = None)"
      unfolding find_None_iff by blast
    then obtain e where f: "find (\<lambda>e. yields_text e raw) encodings = Some e" by blast
    then have "yields_text e raw" by (auto simp: find_Some_iff)
    then obtain t where "py_decode e raw = Some t" "t \<noteq> []"
      by (auto simp: yields_text_def split: option.splits)
    with f show "\<exists>t. decode_response (Some raw) = Inr t \<and> t \<noteq> []"
      by (simp add: decode_response_find)
  qed
  have d: "decode_response (Some []) = Inl RuntimeError"
    by (simp add: decode_response_def encodings_def utf8_sig_decode_def latin1_decode_def)
  have e: "decode_response None = Inl RuntimeError" by (simp add: decode_response_def)
  from a b c d e show ?thesis by blast
qed

theorem decode_first_nonempty_witness:
  "\<not> yields_text UTF8 [] \<and> \<not> yields_text UTF8_SIG [] \<and> \<not> yields_text LATIN1 []
   \<and> decode_response (Some []) = Inl RuntimeError
   \<and> [0xE9, 0x41] \<noteq> ([] :: byte list)
   \<and> decode_response (Some [0xE9, 0x41]) = spec_decode [0xE9, 0x41]
   \<and> (\<exists>t. decode_response (Some [0xE9, 0x41]) = Inr t \<and> t \<noteq> [])"
proof -
  have h1: "\<forall>e \<in> set encodings. \<not> yields_text e []"
    by (simp add: encodings_def yields_text_def utf8_sig_decode_def latin1_decode_def)
  have h2: "[0xE9, 0x41] \<noteq> ([] :: byte list)" by simp
  have h3: "\<not> yields_text UTF8 [] \<and> \<not> yields_text UTF8_SIG [] \<and> \<not> yields_text LATIN1 []"
    using h1 by (simp add: encodings_def)
  from h1 h2 h3 decode_first_nonempty[of "[]"] decode_first_nonempty[of "[0xE9, 0x41]"]
  show ?thesis by blast
qed




text \<open>
  C9. A line that \<open>is_comment_or_empty\<close> retains normalises to a non-empty string, so the
  inner loop of the engine never leaves through the \<open>if not rule: continue\<close> branch.
\<close>

theorem retained_line_normalizes_nonempty:
  "(\<not> is_comment_or_empty (Some line) \<longrightarrow> normalize_rule_line (Some line) \<noteq> [])
   \<and> line_branch unique_rules raw_line \<noteq> SkipEmptyRule"
proof -
  have r: "normalize_rule_line (Some l) \<noteq> []" if "\<not> is_comment_or_empty (Some l)" for l
    using retained_nonempty[OF that] by (simp add: normalize_rule_line_def)
  have "line_branch unique_rules raw_line \<noteq> SkipEmptyRule"
    by (cases raw_line) (simp_all add: line_branch_def Let_def r)
  with r show ?thesis by blast
qed

theorem retained_line_normalizes_nonempty_witness:
  "\<not> is_comment_or_empty (Some (lit '' ruleA ''))
   \<and> normalize_rule_line (Some (lit '' ruleA '')) \<noteq> []
   \<and> line_branch {} (PStr (lit '' ruleA '')) \<noteq> SkipEmptyRule"
proof -
  have h: "\<not> is_comment_or_empty (Some (lit '' ruleA ''))"
    by (simp add: engine_eval)
  from h retained_line_normalizes_nonempty[of "lit '' ruleA ''" "{}" "PStr (lit '' ruleA '')"]
  show ?thesis by blast
qed

text \<open>
  C10. In a non-empty list of sources, an entry that is not a list is skipped without an
  exception: the result is what the loops and the sort give on the list entries alone,
  which is the result of merging the list entries alone when there is one, and the empty
  list, not an error, when no entry is a list.
\<close>

theorem merge_skips_non_list_sources:
  assumes "srcs \<noteq> []"
  shows "(\<exists>rs. merge_and_deduplicate_rules (PList srcs) = Inr rs)
     \<and> merge_and_deduplicate_rules (PList srcs)
         = Inr (sort (snd (fold merge_source (filter isinstance_list srcs) ({}, []))))
     \<and> (filter isinstance_list srcs \<noteq> [] \<longrightarrow>
          merge_and_deduplicate_rules (PList srcs)
            = merge_and_deduplicate_rules (PList (filter isinstance_list srcs)))
     \<and> (filter isinstance_list srcs = [] \<longrightarrow>
          merge_and_deduplicate_rules (PList srcs) = Inr [])"
proof -
  have eq: "all_rules (filter isinstance_list srcs) = all_rules srcs"
    using non_list_no_rules by (auto simp: all_rules_def)
  have e: "filter isinstance_list srcs = [] \<Longrightarrow> all_rules srcs = {}"
    using eq by (simp add: all_rules_def)
  have a: "\<exists>rs. merge_and_deduplicate_rules (PList srcs) = Inr rs"
    using merge_result[OF assms] by simp
  have b: "filter isinstance_list srcs \<noteq> [] \<longrightarrow>
          merge_and_deduplicate_rules (PList srcs)
            = merge_and_deduplicate_rules (PList (filter isinstance_list srcs))"
    using merge_result[OF assms] merge_result[of "filter isinstance_list srcs"] eq by simp
  have c: "filter isinstance_list srcs = [] \<longrightarrow>
      merge_and_deduplicate_rules (PList srcs) = Inr []"
    using merge_result[OF assms] e by simp
  have d: "merge_and_deduplicate_rules (PList srcs)
         = Inr (sort (snd (fold merge_source (filter isinstance_list srcs) ({}, []))))"
    using merge_result[OF assms] eq by (simp add: merge_loops_sorted)
  from a b c d show ?thesis by blast
qed

theorem merge_skips_non_list_sources_witness:
  "[PInt 1, PList [PStr (lit ''a'')], PNone] \<noteq> []
   \<and> filter isinstance_list [PInt 1, PList [PStr (lit ''a'')], PNone] \<noteq> []
   \<and> merge_and_deduplicate_rules (PList [PInt 1, PList [PStr (lit ''a'')], PNone])
     = merge_and_deduplicate_rules (PList [PList [PStr (lit ''a'')]])
   \<and> [PInt 1, PNone] \<noteq> []
   \<and> filter isinstance_list [PInt 1, PNone] = []
   \<and> merge_and_deduplicate_rules (PList [PInt 1, PNone]) = Inr []"
proof -
  have h1: "[PInt 1, PList [PStr (lit ''a'')], PNone] \<noteq> []" by simp
  have f1: "filter isinstance_list [PInt 1, PList [PStr (lit ''a'')], PNone]
              = [PList [PStr (lit ''a'')]]"
    by (simp add: isinstance_list_def)
  have h2: "[PInt 1, PNone] \<noteq> []" by simp
  have f2: "filter isinstance_list [PInt 1, PNone] = []" by (simp add: isinstance_list_def)
  have n1: "filter isinstance_list [PInt 1, PList [PStr (lit ''a'')], PNone] \<noteq> []"
    unfolding f1 by simp
  from merge_skips_non_list_sources[OF h1] n1
  have a: "merge_and_deduplicate_rules (PList [PInt 1, PList [PStr (lit ''a'')], PNone])
     = merge_and_deduplicate_rules
         (PList (filter isinstance_list [PInt 1, PList [PStr (lit ''a'')], PNone]))"
    by blast
  from merge_skips_non_list_sources[OF h2] f2
  have b: "merge_and_deduplicate_rules (PList [PInt 1, PNone]) = Inr []" by blast
  from h1 n1 a h2 f2 b show ?thesis unfolding f1 by blast
qed

end
